theory Spec2Isabelle
  imports Complex_Main
begin

section \<open>The adaptive polling engine (class \<open>Poll\<close>)\<close>

text \<open>
  The source is the TypeScript class \<open>Poll\<close> with its namespace \<open>Private\<close>
  (\<open>src/packages/settingeditor/package.json\<close>, lines 65 to 512). A JavaScript number is
  modelled as a \<^typ>\<open>real\<close>: the model has no \<open>NaN\<close>, no infinities and no rounding
  error. An optional field (\<open>interval?: number\<close>) is an \<^typ>\<open>real option\<close>, where
  \<^term>\<open>None\<close> is \<open>undefined\<close>.
\<close>

subsection \<open>Numbers\<close>

text \<open>\<open>Math.round\<close>: the nearest integer, a tie going towards plus infinity.\<close>

definition js_round :: "real \<Rightarrow> real" where
  "js_round x = of_int \<lfloor>x + 1 / 2\<rfloor>"

text \<open>
  The comparison \<open>a > b\<close> of two optional numbers: \<open>undefined\<close> converts to \<open>NaN\<close>,
  and every comparison with \<open>NaN\<close> is false.
\<close>

definition js_gt :: "real option \<Rightarrow> real option \<Rightarrow> bool" where
  "js_gt a b = (case a of None \<Rightarrow> False
                | Some x \<Rightarrow> (case b of None \<Rightarrow> False | Some y \<Rightarrow> x > y))"

subsection \<open>\<open>Private.jitter\<close>\<close>

text \<open>
  \<open>r1\<close> and \<open>r2\<close> are the values the two calls of \<open>Math.random()\<close> return, in the
  order of the source; the early return for a factor of zero reads neither.
\<close>

definition jitter :: "real \<Rightarrow> real \<Rightarrow> real \<Rightarrow> real \<Rightarrow> real \<Rightarrow> real \<Rightarrow> real" where
  "jitter r1 r2 base factor mn mx =
     (if factor = 0 then js_round base
      else let direction = (if r1 < 1 / 2 then 1 else - 1);
               jit = r2 * base * \<bar>factor\<bar> * direction;
               candidate = \<bar>js_round (base + jit)\<bar>
           in min (max mn candidate) mx)"

text \<open>The value \<open>x\<close> clamped into the range from \<open>mn\<close> to \<open>mx\<close>, as the last line
  of \<open>jitter\<close> computes it.\<close>

definition clamp :: "real \<Rightarrow> real \<Rightarrow> real \<Rightarrow> real" where
  "clamp mn mx x = min (max mn x) mx"

subsection \<open>Data: \<open>Poll.Phase\<close>, \<open>Poll.State\<close>, \<open>Poll.IOptions\<close>\<close>

datatype phase =
  Reconnect | Refresh | Rejected | Resolved | Standby | WhenRejected | WhenResolved

text \<open>\<open>Poll.State\<close>. The payload \<open>null\<close> is \<^term>\<open>None\<close>; resolved and rejected
  values share the one type \<open>'v\<close>, as \<open>T | U\<close> does at run time.\<close>

record 'v state =
  interval :: real
  payload :: "'v option"
  phase :: phase
  tick :: real

text \<open>\<open>Poll.IOptions\<close> without \<open>factory\<close> and \<open>when\<close>: the two promises are the
  environment of the poll, and their settlements are events below.\<close>

record options =
  opt_interval :: "real option"
  opt_max :: "real option"
  opt_min :: "real option"
  opt_name :: "string option"
  opt_variance :: "real option"

datatype error = Error string | TypeError string

text \<open>A \<open>PromiseDelegate\<close> is identified by its index in the list of all delegates
  created so far; the entry is the status of its promise.\<close>

datatype delegate = Pending | Fulfilled | Failed string

text \<open>What an observer of the poll can see, in the order it happens: a state installed
  by \<open>_schedule\<close>, an invocation of the factory (with the delegate \<open>_execute\<close> was called
  for and the state passed), a call of \<open>this._ticked.emit()\<close> or of
  \<open>this._disposed.emit()\<close>, and the warning of the constructor.\<close>

datatype 'v obs =
  Installed "'v state" | Invoked nat "'v state" | Ticked | Disposed | Warned 'v

text \<open>What the host answers when asked: \<open>new Date().getTime()\<close>, \<open>document.hidden\<close>
  and two calls of \<open>Math.random()\<close>.\<close>

record env =
  now :: real
  hidden :: bool
  rand1 :: real
  rand2 :: real

text \<open>
  The fields of the class (\<open>p_interval\<close> to \<open>p_timeout\<close>; \<open>_tick\<close> is
  \<^term>\<open>None\<close> when \<open>null\<close>), followed by the part of the host the poll acts on:
  \<^item> \<open>delegates\<close>: every \<open>PromiseDelegate\<close> created so far;
  \<^item> \<open>timers\<close>: the armed \<open>setTimeout\<close> callbacks, each a handle and the delegate its
    closure \<open>request\<close> captured; \<open>frames\<close>: the same for \<open>requestAnimationFrame\<close>.
    The two kinds of handle are numbered apart, as in a browser, and \<open>clearTimeout\<close>
    removes timers only;
  \<^item> \<open>microtasks\<close>: how many reactions \<open>() => this._ticked.emit()\<close> are queued;
  \<^item> \<open>inflight\<close>: the delegates of the factory calls that have not settled;
  \<^item> \<open>gate_pending\<close>: the promise \<open>when || Promise.resolve()\<close> has not settled;
  \<^item> \<open>trace\<close>: the observations so far.
\<close>

record 'v poll =
  p_interval :: real
  p_max :: real
  p_min :: real
  p_name :: string
  p_variance :: real
  p_isDisposed :: bool
  p_state :: "'v state"
  p_tick :: "nat option"
  p_timeout :: nat
  delegates :: "delegate list"
  timers :: "(nat \<times> nat) list"
  frames :: "(nat \<times> nat) list"
  next_timer :: nat
  next_frame :: nat
  microtasks :: nat
  inflight :: "nat list"
  gate_pending :: bool
  trace :: "'v obs list"

subsection \<open>\<open>_schedule\<close> and \<open>_resolve\<close>\<close>

definition clearTimeout :: "nat \<Rightarrow> 'v poll \<Rightarrow> 'v poll" where
  "clearTimeout h w = w\<lparr>timers := filter (\<lambda>(k, _). k \<noteq> h) (timers w)\<rparr>"

text \<open>\<open>state.interval ? setTimeout(...) : requestAnimationFrame(...)\<close>: a number is
  truthy when it is not zero.\<close>

definition schedule :: "'v state \<Rightarrow> 'v poll \<Rightarrow> 'v poll" where
  "schedule st w =
     (let poll = length (delegates w);
          w1 = w\<lparr>p_state := st, p_tick := Some poll,
                 delegates := delegates w @ [Pending],
                 trace := trace w @ [Installed st]\<rparr>;
          w2 = clearTimeout (p_timeout w1) w1
      in if interval st \<noteq> 0
         then w2\<lparr>p_timeout := next_timer w2,
                 timers := timers w2 @ [(next_timer w2, poll)],
                 next_timer := Suc (next_timer w2)\<rparr>
         else w2\<lparr>p_timeout := next_frame w2,
                 frames := frames w2 @ [(next_frame w2, poll)],
                 next_frame := Suc (next_frame w2)\<rparr>)"

text \<open>\<open>poll.promise.then(() => this._ticked.emit()); poll.resolve(this)\<close>: the reaction is
  queued when the promise is or becomes fulfilled, and never on a rejected promise.\<close>

definition then_emit_resolve :: "nat \<Rightarrow> 'v poll \<Rightarrow> 'v poll" where
  "then_emit_resolve poll w =
     (if poll < length (delegates w)
      then (case delegates w ! poll of
              Pending \<Rightarrow> w\<lparr>delegates := (delegates w)[poll := Fulfilled],
                           microtasks := Suc (microtasks w)\<rparr>
            | Fulfilled \<Rightarrow> w\<lparr>microtasks := Suc (microtasks w)\<rparr>
            | Failed _ \<Rightarrow> w)
      else w)"

definition resolve :: "nat option \<Rightarrow> 'v state \<Rightarrow> 'v poll \<Rightarrow> nat option \<times> 'v poll" where
  "resolve poll st w =
     (let w1 = schedule st w;
          w2 = (case poll of None \<Rightarrow> w1 | Some t \<Rightarrow> then_emit_resolve t w1)
      in (p_tick w2, w2))"

subsection \<open>The constructor and the handlers of the gate\<close>

definition constructor :: "options \<Rightarrow> real \<Rightarrow> error + 'v poll" where
  "constructor opts t0 =
     (if js_gt (opt_interval opts) (opt_max opts)
      then Inl (Error ''Poll interval cannot exceed max interval length'')
      else if js_gt (opt_min opts) (opt_max opts) \<or> js_gt (opt_min opts) (opt_interval opts)
      then Inl (Error ''Poll min cannot exceed poll interval or poll max'')
      else
        let i = (case opt_interval opts of Some x \<Rightarrow> js_round \<bar>x\<bar> | None \<Rightarrow> 1000);
            mx = (case opt_max opts of Some x \<Rightarrow> \<bar>x\<bar> | None \<Rightarrow> 10 * i);
            mn = (case opt_min opts of Some x \<Rightarrow> \<bar>x\<bar> | None \<Rightarrow> 100);
            nm = (case opt_name opts of
                    Some s \<Rightarrow> (if s = [] then ''unknown'' else s) | None \<Rightarrow> ''unknown'');
            va = (case opt_variance opts of Some x \<Rightarrow> x | None \<Rightarrow> 2 / 10)
        in Inr \<lparr>p_interval = i, p_max = mx, p_min = mn, p_name = nm, p_variance = va,
                p_isDisposed = False,
                p_state = \<lparr>interval = i, payload = None, phase = Standby, tick = t0\<rparr>,
                p_tick = Some 0, p_timeout = 0,
                delegates = [Pending], timers = [], frames = [],
                next_timer = 1, next_frame = 1, microtasks = 0, inflight = [],
                gate_pending = True, trace = []\<rparr>)"

text \<open>The two reactions to the gate; \<open>poll\<close> there is the first delegate, number 0.\<close>

definition when_then :: "env \<Rightarrow> 'v poll \<Rightarrow> 'v poll" where
  "when_then e w =
     (if p_isDisposed w then w
      else snd (resolve (Some 0)
                  \<lparr>interval = p_interval w, payload = None, phase = WhenResolved,
                   tick = now e\<rparr> w))"

definition when_catch :: "'v \<Rightarrow> env \<Rightarrow> 'v poll \<Rightarrow> 'v poll" where
  "when_catch reason e w =
     (if p_isDisposed w then w
      else let w1 = snd (resolve (Some 0)
                           \<lparr>interval = p_interval w, payload = None, phase = WhenRejected,
                            tick = now e\<rparr> w)
           in w1\<lparr>trace := trace w1 @ [Warned reason]\<rparr>)"

subsection \<open>\<open>tick\<close>, \<open>dispose\<close>, \<open>refresh\<close>\<close>

text \<open>The getter \<open>tick\<close> reads \<open>this._tick.promise\<close>: on \<open>null\<close> that is a
  \<open>TypeError\<close>.\<close>

definition get_tick :: "'v poll \<Rightarrow> error + nat" where
  "get_tick w = (case p_tick w of
                   None \<Rightarrow> Inl (TypeError ''Cannot read property promise of null'')
                 | Some t \<Rightarrow> Inr t)"

text \<open>\<open>Signal.clearData\<close> disconnects the slots of both signals; slots are not part of
  the model, the emissions are.\<close>

definition dispose :: "'v poll \<Rightarrow> 'v poll" where
  "dispose w =
     (if p_isDisposed w then w
      else
        let w1 = w\<lparr>p_isDisposed := True\<rparr>;
            w2 = (case p_tick w1 of
                    None \<Rightarrow> w1
                  | Some poll \<Rightarrow>
                      w1\<lparr>p_tick := None,
                         delegates := (if poll < length (delegates w1)
                                          \<and> delegates w1 ! poll = Pending
                                       then (delegates w1)
                                              [poll := Failed (''Poll ('' @ p_name w1 @ '') is disposed.'')]
                                       else delegates w1)\<rparr>)
        in w2\<lparr>trace := trace w2 @ [Disposed]\<rparr>)"

definition refresh :: "env \<Rightarrow> 'v poll \<Rightarrow> (error + nat) \<times> 'v poll" where
  "refresh e w =
     (case resolve (p_tick w)
             \<lparr>interval = 0, payload = None, phase = Refresh, tick = now e\<rparr> w of
        (None, w') \<Rightarrow> (Inl (TypeError ''Cannot read property promise of null''), w')
      | (Some t, w') \<Rightarrow> (Inr t, w'))"

subsection \<open>\<open>_execute\<close> and the reactions to the factory's promise\<close>

definition execute :: "nat \<Rightarrow> env \<Rightarrow> 'v poll \<Rightarrow> 'v poll" where
  "execute poll e w =
     (if p_isDisposed w then w
      else if hidden e
      then snd (resolve (Some poll)
                  \<lparr>interval = jitter (rand1 e) (rand2 e) (p_interval w) (p_variance w)
                                (p_min w) (p_max w),
                   payload = None, phase = Standby, tick = now e\<rparr> w)
      else w\<lparr>inflight := inflight w @ [poll],
             trace := trace w @ [Invoked poll (p_state w)]\<rparr>)"

definition factory_then :: "nat \<Rightarrow> 'v \<Rightarrow> env \<Rightarrow> 'v poll \<Rightarrow> 'v poll" where
  "factory_then poll resolved e w =
     (if p_isDisposed w then w
      else if Some poll \<noteq> p_tick w then w
      else snd (resolve (Some poll)
                  \<lparr>interval = jitter (rand1 e) (rand2 e) (p_interval w) (p_variance w)
                                (p_min w) (p_max w),
                   payload = Some resolved,
                   phase = (if phase (p_state w) = Rejected then Reconnect else Resolved),
                   tick = now e\<rparr> w))"

definition factory_catch :: "nat \<Rightarrow> 'v \<Rightarrow> env \<Rightarrow> 'v poll \<Rightarrow> 'v poll" where
  "factory_catch poll rejected e w =
     (if p_isDisposed w then w
      else if Some poll \<noteq> p_tick w then w
      else let increased = min (interval (p_state w) * 2) (p_max w)
           in snd (resolve (Some poll)
                     \<lparr>interval = jitter (rand1 e) (rand2 e) increased (p_variance w)
                                   (p_min w) (p_max w),
                      payload = Some rejected, phase = Rejected, tick = now e\<rparr> w))"

subsection \<open>Events\<close>

text \<open>
  Everything that can happen to a poll after its construction: the gate settles, an armed
  timer or frame request fires (named by its handle), a factory call settles (named by the
  delegate \<open>_execute\<close> was called for), the client calls \<open>refresh\<close> or \<open>dispose\<close>, or
  the host runs the next queued reaction. An event that cannot happen in the state
  (a handle that is not armed, a call that is not in flight, a gate that has settled)
  changes nothing.
\<close>

datatype 'v event =
    GateResolves env
  | GateRejects 'v env
  | TimerFires nat env
  | FrameFires nat env
  | FactoryResolves nat 'v env
  | FactoryRejects nat 'v env
  | CallRefresh env
  | CallDispose
  | RunMicrotask

fun step :: "'v poll \<Rightarrow> 'v event \<Rightarrow> 'v poll" where
  "step w (GateResolves e) =
     (if gate_pending w then when_then e (w\<lparr>gate_pending := False\<rparr>) else w)"
| "step w (GateRejects reason e) =
     (if gate_pending w then when_catch reason e (w\<lparr>gate_pending := False\<rparr>) else w)"
| "step w (TimerFires h e) =
     (case map_of (timers w) h of
        None \<Rightarrow> w
      | Some poll \<Rightarrow> execute poll e (w\<lparr>timers := filter (\<lambda>(k, _). k \<noteq> h) (timers w)\<rparr>))"
| "step w (FrameFires h e) =
     (case map_of (frames w) h of
        None \<Rightarrow> w
      | Some poll \<Rightarrow> execute poll e (w\<lparr>frames := filter (\<lambda>(k, _). k \<noteq> h) (frames w)\<rparr>))"
| "step w (FactoryResolves poll v e) =
     (if poll \<in> set (inflight w)
      then factory_then poll v e (w\<lparr>inflight := remove1 poll (inflight w)\<rparr>)
      else w)"
| "step w (FactoryRejects poll v e) =
     (if poll \<in> set (inflight w)
      then factory_catch poll v e (w\<lparr>inflight := remove1 poll (inflight w)\<rparr>)
      else w)"
| "step w (CallRefresh e) = snd (refresh e w)"
| "step w CallDispose = dispose w"
| "step w RunMicrotask =
     (case microtasks w of
        0 \<Rightarrow> w
      | Suc n \<Rightarrow> w\<lparr>microtasks := n, trace := trace w @ [Ticked]\<rparr>)"

fun run :: "'v poll \<Rightarrow> 'v event list \<Rightarrow> 'v poll" where
  "run w [] = w"
| "run w (ev # evs) = run (step w ev) evs"

subsection \<open>The sample configuration of the specification\<close>

text \<open>\<open>{interval: 1000, min: 100, max: 10000, variance: 0}\<close>, a host that is visible at
  time 0, and the poll constructed from them, with strings as factory values.\<close>

definition sample_options :: options where
  "sample_options =
     \<lparr>opt_interval = Some 1000, opt_max = Some 10000, opt_min = Some 100,
      opt_name = None, opt_variance = Some 0\<rparr>"

definition visible :: env where
  "visible = \<lparr>now = 0, hidden = False, rand1 = 0, rand2 = 0\<rparr>"

definition sample_poll :: "string poll" where
  "sample_poll =
     \<lparr>p_interval = 1000, p_max = 10000, p_min = 100, p_name = ''unknown'', p_variance = 0,
      p_isDisposed = False,
      p_state = \<lparr>interval = 1000, payload = None, phase = Standby, tick = 0\<rparr>,
      p_tick = Some 0, p_timeout = 0,
      delegates = [Pending], timers = [], frames = [],
      next_timer = 1, next_frame = 1, microtasks = 0, inflight = [],
      gate_pending = True, trace = []\<rparr>"

subsection \<open>Scenarios and observations\<close>

text \<open>The states \<open>_schedule\<close> installed, oldest first.\<close>

fun installed :: "'v obs list \<Rightarrow> 'v state list" where
  "installed [] = []"
| "installed (Installed st # tr) = st # installed tr"
| "installed (_ # tr) = installed tr"

text \<open>The factory calls made, oldest first.\<close>

fun invoked :: "'v obs list \<Rightarrow> (nat \<times> 'v state) list" where
  "invoked [] = []"
| "invoked (Invoked t st # tr) = (t, st) # invoked tr"
| "invoked (_ # tr) = invoked tr"

text \<open>One round of a factory that rejects with \<open>x\<close>: the timer of the current tick
  fires while the host is visible, and the call it makes is rejected. \<open>failures n\<close> is
  \<open>n\<close> such rounds.\<close>

definition reject_round :: "'v \<Rightarrow> 'v poll \<Rightarrow> 'v poll" where
  "reject_round x w =
     (case p_tick w of
        None \<Rightarrow> w
      | Some t \<Rightarrow> run w [TimerFires (p_timeout w) visible, FactoryRejects t x visible])"

fun failures :: "nat \<Rightarrow> 'v \<Rightarrow> 'v poll \<Rightarrow> 'v poll" where
  "failures 0 x w = w"
| "failures (Suc n) x w = reject_round x (failures n x w)"

text \<open>The poll is live and the timer of its current tick is armed.\<close>

definition timer_armed :: "'v poll \<Rightarrow> bool" where
  "timer_armed w \<longleftrightarrow>
     \<not> p_isDisposed w
     \<and> map_of (timers w) (p_timeout w) = p_tick w \<and> p_tick w \<noteq> None
     \<and> (\<forall>h \<in> fst ` set (timers w). h < next_timer w)"

text \<open>
  Every delegate the poll or the host refers to exists, the outstanding one is pending,
  and only a disposed poll has none.
\<close>

definition well_formed :: "'v poll \<Rightarrow> bool" where
  "well_formed w \<longleftrightarrow>
     0 < length (delegates w)
     \<and> (p_tick w = None \<longrightarrow> p_isDisposed w)
     \<and> (\<forall>t. p_tick w = Some t \<longrightarrow> t < length (delegates w) \<and> delegates w ! t = Pending)
     \<and> list_all (\<lambda>t. t < length (delegates w)) (inflight w)
     \<and> list_all (\<lambda>t. t < length (delegates w)) (map snd (timers w))
     \<and> list_all (\<lambda>t. t < length (delegates w)) (map snd (frames w))"

text \<open>The interval of an installed state is 0 for a \<open>refresh\<close> and lies between the
  minimum and the maximum of the poll otherwise.\<close>

definition tick_in_bounds :: "'v poll \<Rightarrow> 'v state \<Rightarrow> bool" where
  "tick_in_bounds w st \<longleftrightarrow>
     (if phase st = Refresh then interval st = 0
      else p_min w \<le> interval st \<and> interval st \<le> p_max w)"

section \<open>Properties\<close>

subsection \<open>Evaluation\<close>

lemmas poll_defs =
  js_round_def js_gt_def jitter_def clearTimeout_def schedule_def
  then_emit_resolve_def resolve_def constructor_def when_then_def when_catch_def
  dispose_def refresh_def execute_def factory_then_def factory_catch_def
  sample_options_def visible_def sample_poll_def Let_def

lemma sample_poll_constructed: "constructor sample_options 0 = Inr sample_poll"
  by (simp add: poll_defs)

subsection \<open>What \<open>_schedule\<close> and \<open>_resolve\<close> change\<close>

lemma then_emit_resolve_fields [simp]:
  "p_state (then_emit_resolve t w) = p_state w"
  "p_tick (then_emit_resolve t w) = p_tick w"
  "p_isDisposed (then_emit_resolve t w) = p_isDisposed w"
  "p_interval (then_emit_resolve t w) = p_interval w"
  "p_max (then_emit_resolve t w) = p_max w"
  "p_min (then_emit_resolve t w) = p_min w"
  "p_variance (then_emit_resolve t w) = p_variance w"
  "p_name (then_emit_resolve t w) = p_name w"
  "p_timeout (then_emit_resolve t w) = p_timeout w"
  "timers (then_emit_resolve t w) = timers w"
  "frames (then_emit_resolve t w) = frames w"
  "next_timer (then_emit_resolve t w) = next_timer w"
  "next_frame (then_emit_resolve t w) = next_frame w"
  "inflight (then_emit_resolve t w) = inflight w"
  "gate_pending (then_emit_resolve t w) = gate_pending w"
  "trace (then_emit_resolve t w) = trace w"
  "length (delegates (then_emit_resolve t w)) = length (delegates w)"
  by (simp_all add: then_emit_resolve_def split: delegate.splits)

lemma schedule_fields [simp]:
  "p_state (schedule st w) = st"
  "p_tick (schedule st w) = Some (length (delegates w))"
  "p_isDisposed (schedule st w) = p_isDisposed w"
  "p_interval (schedule st w) = p_interval w"
  "p_max (schedule st w) = p_max w"
  "p_min (schedule st w) = p_min w"
  "p_variance (schedule st w) = p_variance w"
  "p_name (schedule st w) = p_name w"
  "inflight (schedule st w) = inflight w"
  "gate_pending (schedule st w) = gate_pending w"
  "microtasks (schedule st w) = microtasks w"
  "trace (schedule st w) = trace w @ [Installed st]"
  "delegates (schedule st w) = delegates w @ [Pending]"
  by (simp_all add: schedule_def clearTimeout_def Let_def)

lemma resolve_fields [simp]:
  "fst (resolve poll st w) = Some (length (delegates w))"
  "p_state (snd (resolve poll st w)) = st"
  "p_tick (snd (resolve poll st w)) = Some (length (delegates w))"
  "p_isDisposed (snd (resolve poll st w)) = p_isDisposed w"
  "p_interval (snd (resolve poll st w)) = p_interval w"
  "p_max (snd (resolve poll st w)) = p_max w"
  "p_min (snd (resolve poll st w)) = p_min w"
  "p_variance (snd (resolve poll st w)) = p_variance w"
  "p_name (snd (resolve poll st w)) = p_name w"
  "inflight (snd (resolve poll st w)) = inflight w"
  "gate_pending (snd (resolve poll st w)) = gate_pending w"
  "trace (snd (resolve poll st w)) = trace w @ [Installed st]"
  "length (delegates (snd (resolve poll st w))) = Suc (length (delegates w))"
  by (simp_all add: resolve_def Let_def split: option.splits)

lemma installed_append [simp]: "installed (xs @ ys) = installed xs @ installed ys"
  by (induction xs rule: installed.induct) simp_all

lemma invoked_append [simp]: "invoked (xs @ ys) = invoked xs @ invoked ys"
  by (induction xs rule: invoked.induct) simp_all

subsection \<open>The jitter function\<close>

lemma js_gt_Some: "js_gt (Some x) (Some y) \<longleftrightarrow> x > y"
  by (simp add: js_gt_def)

lemma clamp_id_iff: "mn \<le> mx \<Longrightarrow> clamp mn mx x = x \<longleftrightarrow> mn \<le> x \<and> x \<le> mx"
  by (auto simp: clamp_def min_def max_def)

lemma jitter_clamped:
  assumes "factor \<noteq> 0" and "mn \<le> mx"
  shows "mn \<le> jitter r1 r2 base factor mn mx" and "jitter r1 r2 base factor mn mx \<le> mx"
  using assms by (simp_all add: jitter_def Let_def)

text \<open>
  Claim C2, as stated: for every base, min and max with min \<open>\<le>\<close> max,
  \<open>jitter(base, 0, min, max)\<close> is \<open>round(base)\<close> clamped into the range from min to max.
  It fails: with a factor of zero the function returns \<open>Math.round(base)\<close> before the
  clamp, so \<open>jitter(5, 0, 10, 20)\<close> is 5, and 5 clamped into the range is 10.
\<close>

theorem jitter_zero_factor_counterexample:
  "(10 :: real) \<le> 20 \<and> jitter 0 0 5 0 10 20 \<noteq> clamp 10 20 (js_round 5)"
  by (simp add: jitter_def clamp_def js_round_def)

text \<open>
  Claim C2, amended: for every base, min and max, \<open>jitter(base, 0, min, max)\<close> is
  \<open>round(base)\<close>, not clamped; when min \<open>\<le>\<close> max it is \<open>round(base)\<close> clamped into the
  range exactly when \<open>round(base)\<close> lies in the range already.
\<close>

theorem jitter_zero_factor:
  "jitter r1 r2 base 0 mn mx = js_round base
   \<and> (mn \<le> mx \<longrightarrow>
        (jitter r1 r2 base 0 mn mx = clamp mn mx (js_round base)
          \<longleftrightarrow> mn \<le> js_round base \<and> js_round base \<le> mx))"
proof -
  have eq: "jitter r1 r2 base 0 mn mx = js_round base"
    by (simp add: jitter_def)
  have "clamp mn mx (js_round base) = js_round base
          \<longleftrightarrow> mn \<le> js_round base \<and> js_round base \<le> mx" if "mn \<le> mx"
    using that by (rule clamp_id_iff)
  with eq show ?thesis by (simp add: eq_commute)
qed

theorem jitter_zero_factor_witness:
  "jitter 0 0 1000 0 100 10000 = js_round 1000
   \<and> (100 :: real) \<le> 10000
   \<and> jitter 0 0 1000 0 100 10000 = clamp 100 10000 (js_round 1000)"
  using jitter_zero_factor [of 0 0 1000 100 10000]
  by (simp add: js_round_def)

subsection \<open>The constructor\<close>

text \<open>
  Claim C6: for every options record, the constructor throws (and no poll is created) if
  and only if \<open>interval > max\<close>, or \<open>min > max\<close>, or \<open>min > interval\<close>, the comparisons
  being those of the source on the values as passed (a comparison with an omitted value is
  false); otherwise the poll is created and records its configuration: the interval
  \<open>round |interval|\<close> or 1000, the maximum \<open>|max|\<close> or ten times the interval, the minimum
  \<open>|min|\<close> or 100, the variance or 0.2, and the initial \<open>standby\<close> state scheduled with
  that interval.
\<close>

theorem constructor_throws_iff_invalid:
  fixes opts :: options and t0 :: real
  defines "invalid \<equiv> js_gt (opt_interval opts) (opt_max opts)
                      \<or> js_gt (opt_min opts) (opt_max opts)
                      \<or> js_gt (opt_min opts) (opt_interval opts)"
  shows "((\<exists>err. (constructor opts t0 :: error + 'v poll) = Inl err) \<longleftrightarrow> invalid)
       \<and> (\<not> invalid \<longrightarrow>
            (\<exists>w :: 'v poll. constructor opts t0 = Inr w
               \<and> p_interval w = (case opt_interval opts of Some x \<Rightarrow> js_round \<bar>x\<bar> | None \<Rightarrow> 1000)
               \<and> p_max w = (case opt_max opts of Some x \<Rightarrow> \<bar>x\<bar> | None \<Rightarrow> 10 * p_interval w)
               \<and> p_min w = (case opt_min opts of Some x \<Rightarrow> \<bar>x\<bar> | None \<Rightarrow> 100)
               \<and> p_variance w = (case opt_variance opts of Some x \<Rightarrow> x | None \<Rightarrow> 2 / 10)
               \<and> \<not> p_isDisposed w
               \<and> p_state w = \<lparr>interval = p_interval w, payload = None, phase = Standby,
                               tick = t0\<rparr>
               \<and> get_tick w = Inr 0 \<and> delegates w = [Pending]
               \<and> timers w = [] \<and> frames w = [] \<and> inflight w = [] \<and> trace w = []))"
  unfolding invalid_def
  by (simp add: constructor_def get_tick_def Let_def split: option.splits)

theorem constructor_throws_iff_invalid_witness:
  "\<not> (js_gt (opt_interval sample_options) (opt_max sample_options)
        \<or> js_gt (opt_min sample_options) (opt_max sample_options)
        \<or> js_gt (opt_min sample_options) (opt_interval sample_options))
   \<and> (\<exists>w :: string poll. constructor sample_options 0 = Inr w
         \<and> p_interval w = 1000 \<and> p_max w = 10000 \<and> p_min w = 100 \<and> p_variance w = 0)"
proof -
  have valid: "\<not> (js_gt (opt_interval sample_options) (opt_max sample_options)
                    \<or> js_gt (opt_min sample_options) (opt_max sample_options)
                    \<or> js_gt (opt_min sample_options) (opt_interval sample_options))"
    by (simp add: sample_options_def js_gt_def)
  with constructor_throws_iff_invalid [of sample_options 0, where ?'v = string]
  obtain w :: "string poll" where w: "constructor sample_options 0 = Inr w"
    and "p_interval w = (case opt_interval sample_options of
                           Some x \<Rightarrow> js_round \<bar>x\<bar> | None \<Rightarrow> 1000)"
    and "p_max w = (case opt_max sample_options of Some x \<Rightarrow> \<bar>x\<bar> | None \<Rightarrow> 10 * p_interval w)"
    and "p_min w = (case opt_min sample_options of Some x \<Rightarrow> \<bar>x\<bar> | None \<Rightarrow> 100)"
    and "p_variance w = (case opt_variance sample_options of Some x \<Rightarrow> x | None \<Rightarrow> 2 / 10)"
    by blast
  then have "p_interval w = 1000 \<and> p_max w = 10000 \<and> p_min w = 100 \<and> p_variance w = 0"
    by (simp add: sample_options_def js_round_def)
  with valid w show ?thesis by blast
qed

text \<open>
  The comparisons are made on the values as passed, before the defaults and the absolute
  values are applied, so the configuration recorded need not satisfy the three relations:
  \<open>{interval: 50}\<close> is accepted and records the default minimum 100 above the interval.
\<close>

lemma constructor_defaults_unchecked:
  "\<exists>w :: 'v poll.
     constructor \<lparr>opt_interval = Some 50, opt_max = None, opt_min = None, opt_name = None,
                  opt_variance = None\<rparr> t0 = Inr w
     \<and> p_interval w = 50 \<and> p_min w = 100 \<and> p_max w = 500"
  by (simp add: constructor_def js_gt_def js_round_def Let_def)

subsection \<open>Settlement of the factory's promise\<close>

text \<open>
  Claim C8: when the factory succeeds and the poll is neither disposed nor the call
  superseded (the delegate of the call is still the outstanding one), the state installed
  has phase \<open>reconnect\<close> if the phase before was \<open>rejected\<close> and \<open>resolved\<close>
  otherwise, the success value as payload, and the interval
  \<open>jitter(this.interval, variance, min, max)\<close> of the configured interval, not of a
  doubled one; it is the one state installed by the settlement.
\<close>

theorem factory_success_installs:
  assumes "\<not> p_isDisposed w" and "p_tick w = Some poll" and "poll \<in> set (inflight w)"
  shows "p_state (step w (FactoryResolves poll v e)) =
           \<lparr>interval = jitter (rand1 e) (rand2 e) (p_interval w) (p_variance w) (p_min w) (p_max w),
            payload = Some v,
            phase = (if phase (p_state w) = Rejected then Reconnect else Resolved),
            tick = now e\<rparr>
       \<and> trace (step w (FactoryResolves poll v e)) =
           trace w @ [Installed (p_state (step w (FactoryResolves poll v e)))]"
  using assms by (simp add: factory_then_def)

theorem factory_success_installs_witness:
  "p_state (run sample_poll
              [GateResolves visible, TimerFires 1 visible, FactoryRejects 1 ''x'' visible,
               TimerFires 2 visible, FactoryRejects 2 ''x'' visible,
               TimerFires 3 visible, FactoryResolves 3 ''42'' visible])
     = \<lparr>interval = 1000, payload = Some ''42'', phase = Reconnect, tick = 0\<rparr>"
proof -
  define w where "w = run sample_poll
              [GateResolves visible, TimerFires 1 visible, FactoryRejects 1 ''x'' visible,
               TimerFires 2 visible, FactoryRejects 2 ''x'' visible, TimerFires 3 visible]"
  have w: "\<not> p_isDisposed w" "p_tick w = Some 3" "3 \<in> set (inflight w)"
    and cfg: "phase (p_state w) = Rejected"
      "p_interval w = 1000" "p_max w = 10000" "p_min w = 100" "p_variance w = 0"
    by (simp_all add: w_def poll_defs)
  have r: "run sample_poll
              [GateResolves visible, TimerFires 1 visible, FactoryRejects 1 ''x'' visible,
               TimerFires 2 visible, FactoryRejects 2 ''x'' visible,
               TimerFires 3 visible, FactoryResolves 3 ''42'' visible]
           = step w (FactoryResolves 3 ''42'' visible)"
    by (simp only: w_def run.simps)
  from factory_success_installs [OF w, of "''42''" visible]
  have "p_state (step w (FactoryResolves 3 ''42'' visible)) =
           \<lparr>interval = jitter (rand1 visible) (rand2 visible) (p_interval w) (p_variance w)
                         (p_min w) (p_max w),
            payload = Some ''42'',
            phase = (if phase (p_state w) = Rejected then Reconnect else Resolved),
            tick = now visible\<rparr>"
    by (rule conjunct1)
  then show ?thesis
    unfolding r cfg by (simp add: jitter_def js_round_def visible_def)
qed

subsection \<open>Exponential back-off\<close>

lemma reject_round_effect:
  assumes arm: "timer_armed w"
    and nz: "jitter 0 0 (min (interval (p_state w) * 2) (p_max w)) (p_variance w)
               (p_min w) (p_max w) \<noteq> 0"
  shows "timer_armed (reject_round x w)"
    and "p_state (reject_round x w) =
           \<lparr>interval = jitter 0 0 (min (interval (p_state w) * 2) (p_max w)) (p_variance w)
                         (p_min w) (p_max w),
            payload = Some x, phase = Rejected, tick = 0\<rparr>"
    and "installed (trace (reject_round x w)) =
           installed (trace w) @ [p_state (reject_round x w)]"
    and "p_max (reject_round x w) = p_max w"
    and "p_min (reject_round x w) = p_min w"
    and "p_variance (reject_round x w) = p_variance w"
proof -
  from arm obtain t where t: "p_tick w = Some t" "map_of (timers w) (p_timeout w) = Some t"
    and nd: "\<not> p_isDisposed w" and fresh: "\<forall>h \<in> fst ` set (timers w). h < next_timer w"
    by (auto simp: timer_armed_def)
  define w1 where "w1 = step w (TimerFires (p_timeout w) visible)"
  have w1: "w1 = w\<lparr>timers := filter (\<lambda>(k, _). k \<noteq> p_timeout w) (timers w),
                     inflight := inflight w @ [t],
                     trace := trace w @ [Invoked t (p_state w)]\<rparr>"
    unfolding w1_def using t nd by (simp add: execute_def visible_def)
  have rr: "reject_round x w = step w1 (FactoryRejects t x visible)"
    using t by (simp add: reject_round_def w1_def)
  let ?st = "\<lparr>interval = jitter 0 0 (min (interval (p_state w) * 2) (p_max w)) (p_variance w)
                         (p_min w) (p_max w),
            payload = Some x, phase = Rejected, tick = 0\<rparr>"
  have w2: "reject_round x w =
              snd (resolve (Some t) ?st (w1\<lparr>inflight := remove1 t (inflight w1)\<rparr>))"
    unfolding rr using t nd by (simp add: w1 factory_catch_def Let_def visible_def)
  show "p_state (reject_round x w) = ?st" unfolding w2 by simp
  then show "installed (trace (reject_round x w)) =
           installed (trace w) @ [p_state (reject_round x w)]"
    unfolding w2 by (simp add: w1)
  show "p_max (reject_round x w) = p_max w" unfolding w2 by (simp add: w1)
  show "p_min (reject_round x w) = p_min w" unfolding w2 by (simp add: w1)
  show "p_variance (reject_round x w) = p_variance w" unfolding w2 by (simp add: w1)
  have none: "map_of (filter (\<lambda>(k, _). k \<noteq> p_timeout w) (timers w)) (next_timer w) = None"
    using fresh by (force simp: map_of_eq_None_iff)
  show "timer_armed (reject_round x w)"
    unfolding w2 timer_armed_def using nd nz fresh none
    by (auto simp: w1 resolve_def schedule_def clearTimeout_def Let_def map_add_def
          less_Suc_eq)
qed


lemma js_round_of_int: "js_round (of_int k) = of_int k"
  unfolding js_round_def by (simp add: floor_unique)

lemma min_double: "min (min a 10000 * 2) 10000 = min (a * 2) (10000 :: real)"
  by (auto simp: min_def)

lemma backoff_arith:
  "js_round (min (min (1000 * 2 ^ n) 10000 * 2) 10000) = min (1000 * 2 ^ Suc n) (10000 :: real)"
proof -
  have e: "min (min (1000 * 2 ^ n) 10000 * 2) 10000
             = real_of_int (min (1000 * 2 ^ Suc n) 10000)"
    by (simp add: min_double of_int_min)
  show ?thesis
    unfolding e js_round_of_int by (simp add: of_int_min)
qed

lemma backoff_invariant:
  fixes n :: nat and w0 :: "'v poll" and x :: 'v
  assumes "timer_armed w0" and "p_max w0 = 10000" and "p_min w0 = 100"
    and "p_variance w0 = 0" and "interval (p_state w0) = 1000"
    and "phase (p_state w0) = WhenResolved" and "installed (trace w0) = [p_state w0]"
  defines "w \<equiv> failures n x w0"
  shows "timer_armed w \<and> p_max w = 10000 \<and> p_min w = 100 \<and> p_variance w = 0
       \<and> interval (p_state w) = min (1000 * 2 ^ n) 10000
       \<and> phase (p_state w) = (if n = 0 then WhenResolved else Rejected)
       \<and> map interval (installed (trace w)) = map (\<lambda>k. min (1000 * 2 ^ k) 10000) [0..<Suc n]
       \<and> map phase (installed (trace w)) = WhenResolved # replicate n Rejected"
  unfolding w_def
proof (induction n)
  case 0
  show ?case using assms(1-7) by simp
next
  case (Suc n)
  let ?w = "failures n x w0"
  from Suc have arm: "timer_armed ?w" and cfg: "p_max ?w = 10000" "p_min ?w = 100" "p_variance ?w = 0"
    and iv: "interval (p_state ?w) = min (1000 * 2 ^ n) 10000"
    and ivs: "map interval (installed (trace ?w)) = map (\<lambda>k. min (1000 * 2 ^ k) 10000) [0..<Suc n]"
    and phs: "map phase (installed (trace ?w)) = WhenResolved # replicate n Rejected"
    by simp_all
  have j: "jitter 0 0 (min (interval (p_state ?w) * 2) (p_max ?w)) (p_variance ?w)
             (p_min ?w) (p_max ?w) = min (1000 * 2 ^ Suc n) 10000"
    unfolding cfg iv jitter_def by (simp only: simp_thms if_True backoff_arith)
  then have nz: "jitter 0 0 (min (interval (p_state ?w) * 2) (p_max ?w)) (p_variance ?w)
             (p_min ?w) (p_max ?w) \<noteq> 0"
    by (simp add: min_def)
  note eff = reject_round_effect [OF arm nz, of x]
  have st: "p_state (reject_round x ?w) =
          \<lparr>interval = min (1000 * 2 ^ Suc n) 10000, payload = Some x, phase = Rejected,
           tick = 0\<rparr>"
    using eff(2) j by simp
  have tr: "installed (trace (reject_round x ?w)) = installed (trace ?w) @ [p_state (reject_round x ?w)]"
    by (rule eff(3))
  show ?case
    unfolding failures.simps
    using eff(1,4,5,6) cfg ivs phs
    by (simp add: st tr replicate_append_same del: upt_Suc power_Suc)
       (simp add: upt_Suc_append del: power_Suc)
qed

lemma sample_started:
  "timer_armed (step sample_poll (GateResolves visible))"
  "p_max (step sample_poll (GateResolves visible)) = 10000"
  "p_min (step sample_poll (GateResolves visible)) = 100"
  "p_variance (step sample_poll (GateResolves visible)) = 0"
  "interval (p_state (step sample_poll (GateResolves visible))) = 1000"
  "phase (p_state (step sample_poll (GateResolves visible))) = WhenResolved"
  "installed (trace (step sample_poll (GateResolves visible)))
     = [p_state (step sample_poll (GateResolves visible))]"
  by (simp_all add: poll_defs timer_armed_def)


text \<open>
  Claim C3: when the factory fails and the poll is neither disposed nor the call
  superseded, the state installed has phase \<open>rejected\<close>, the failure reason as payload
  and the interval \<open>jitter(min(prior interval * 2, max), variance, min, max)\<close>; and for
  the configuration \<open>{interval: 1000, min: 100, max: 10000, variance: 0}\<close> with a
  factory that always rejects, the intervals installed are 1000, 2000, 4000, 8000, 10000,
  10000, and so on: after \<open>n\<close> failures they are \<open>min (1000 * 2 ^ k) 10000\<close> for
  \<open>k\<close> from 0 to \<open>n\<close>, the first with phase \<open>when-resolved\<close> and the others with
  phase \<open>rejected\<close>.
\<close>

theorem factory_failure_backoff:
  fixes w :: "'v poll" and n :: nat
  shows "(\<not> p_isDisposed w \<and> p_tick w = Some poll \<and> poll \<in> set (inflight w) \<longrightarrow>
            p_state (step w (FactoryRejects poll v e)) =
              \<lparr>interval = jitter (rand1 e) (rand2 e) (min (interval (p_state w) * 2) (p_max w))
                            (p_variance w) (p_min w) (p_max w),
               payload = Some v, phase = Rejected, tick = now e\<rparr>
            \<and> trace (step w (FactoryRejects poll v e)) =
                trace w @ [Installed (p_state (step w (FactoryRejects poll v e)))])
       \<and> map interval (installed (trace (failures n ''x'' (step sample_poll (GateResolves visible)))))
           = map (\<lambda>k. min (1000 * 2 ^ k) 10000) [0..<Suc n]
       \<and> map phase (installed (trace (failures n ''x'' (step sample_poll (GateResolves visible)))))
           = WhenResolved # replicate n Rejected"
proof -
  have "p_state (step w (FactoryRejects poll v e)) =
           \<lparr>interval = jitter (rand1 e) (rand2 e) (min (interval (p_state w) * 2) (p_max w))
                         (p_variance w) (p_min w) (p_max w),
            payload = Some v, phase = Rejected, tick = now e\<rparr>
       \<and> trace (step w (FactoryRejects poll v e)) =
           trace w @ [Installed (p_state (step w (FactoryRejects poll v e)))]"
    if "\<not> p_isDisposed w" and "p_tick w = Some poll" and "poll \<in> set (inflight w)"
    using that by (simp add: factory_catch_def Let_def)
  moreover note backoff_invariant [OF sample_started, of n "''x''"]
  ultimately show ?thesis by blast
qed

theorem factory_failure_backoff_witness:
  "p_state (run sample_poll
              [GateResolves visible, TimerFires 1 visible, FactoryRejects 1 ''x'' visible])
     = \<lparr>interval = 2000, payload = Some ''x'', phase = Rejected, tick = 0\<rparr>
   \<and> map interval (installed (trace (failures 5 ''x'' (step sample_poll (GateResolves visible)))))
       = [1000, 2000, 4000, 8000, 10000, 10000]"
proof -
  define w where "w = run sample_poll [GateResolves visible, TimerFires 1 visible]"
  have w: "\<not> p_isDisposed w \<and> p_tick w = Some 1 \<and> 1 \<in> set (inflight w)"
    and cfg: "interval (p_state w) = 1000" "p_max w = 10000" "p_min w = 100" "p_variance w = 0"
    by (simp_all add: w_def poll_defs)
  have r: "run sample_poll
             [GateResolves visible, TimerFires 1 visible, FactoryRejects 1 ''x'' visible]
           = step w (FactoryRejects 1 ''x'' visible)"
    by (simp only: w_def run.simps)
  have six: "map (\<lambda>k. min (1000 * 2 ^ k) (10000 :: real)) [0..<Suc 5]
               = [1000, 2000, 4000, 8000, 10000, 10000]"
    by code_simp
  from factory_failure_backoff [of w 1 "''x''" visible 5] w
  have a: "p_state (step w (FactoryRejects 1 ''x'' visible)) =
             \<lparr>interval = jitter (rand1 visible) (rand2 visible)
                           (min (interval (p_state w) * 2) (p_max w))
                           (p_variance w) (p_min w) (p_max w),
              payload = Some ''x'', phase = Rejected, tick = now visible\<rparr>"
    and b: "map interval
              (installed (trace (failures 5 ''x'' (step sample_poll (GateResolves visible)))))
            = map (\<lambda>k. min (1000 * 2 ^ k) 10000) [0..<Suc 5]"
    by blast+
  have "p_state (step w (FactoryRejects 1 ''x'' visible))
          = \<lparr>interval = 2000, payload = Some ''x'', phase = Rejected, tick = 0\<rparr>"
    unfolding a cfg by (simp add: jitter_def js_round_def visible_def)
  then show ?thesis
    unfolding r b six by (rule conjI) (rule refl)
qed

subsection \<open>Well-formed polls\<close>

lemma well_formed_constructor: "constructor opts t0 = Inr w \<Longrightarrow> well_formed w"
  by (auto simp: constructor_def well_formed_def Let_def split: if_splits)

lemma well_formed_resolve:
  assumes "well_formed w" and "case poll of None \<Rightarrow> True | Some t \<Rightarrow> t < length (delegates w)"
  shows "well_formed (snd (resolve poll st w))"
  using assms
  by (auto simp: well_formed_def resolve_def schedule_def clearTimeout_def then_emit_resolve_def Let_def
        list_all_iff nth_append nth_list_update
      split: option.splits delegate.splits prod.splits if_splits)

lemma well_formed_upd [simp]:
  "well_formed (w\<lparr>gate_pending := b\<rparr>) = well_formed w"
  "well_formed (w\<lparr>trace := tr\<rparr>) = well_formed w"
  "well_formed (w\<lparr>microtasks := m\<rparr>) = well_formed w"
  by (simp_all add: well_formed_def)

lemma well_formed_execute:
  "well_formed w \<Longrightarrow> poll < length (delegates w) \<Longrightarrow> well_formed (execute poll e w)"
  unfolding execute_def
  by (auto intro!: well_formed_resolve) (simp add: well_formed_def)

lemma map_of_snd_in: "map_of xs h = Some t \<Longrightarrow> t \<in> snd ` set xs"
  by (metis map_of_SomeD image_eqI snd_conv)

lemma well_formed_step: "well_formed w \<Longrightarrow> well_formed (step w ev)"
proof (cases ev)
  case (GateResolves e)
  assume "well_formed w"
  then show ?thesis using GateResolves
    by (auto simp: when_then_def intro!: well_formed_resolve) (simp add: well_formed_def)
next
  case (GateRejects r e)
  assume "well_formed w"
  then show ?thesis using GateRejects
    by (auto simp: when_catch_def Let_def intro!: well_formed_resolve) (simp add: well_formed_def)
next
  case (TimerFires h e)
  assume wf: "well_formed w"
  show ?thesis
  proof (cases "map_of (timers w) h")
    case None
    then show ?thesis using wf TimerFires by simp
  next
    case (Some t)
    then have "t < length (delegates w)"
      using wf by (auto simp: well_formed_def list_all_iff dest!: map_of_snd_in)
    moreover have "well_formed (w\<lparr>timers := filter (\<lambda>(k, _). k \<noteq> h) (timers w)\<rparr>)"
      using wf by (auto simp: well_formed_def list_all_iff)
    ultimately show ?thesis using TimerFires Some
      by (simp add: well_formed_execute)
  qed
next
  case (FrameFires h e)
  assume wf: "well_formed w"
  show ?thesis
  proof (cases "map_of (frames w) h")
    case None
    then show ?thesis using wf FrameFires by simp
  next
    case (Some t)
    then have "t < length (delegates w)"
      using wf by (auto simp: well_formed_def list_all_iff dest!: map_of_snd_in)
    moreover have "well_formed (w\<lparr>frames := filter (\<lambda>(k, _). k \<noteq> h) (frames w)\<rparr>)"
      using wf by (auto simp: well_formed_def list_all_iff)
    ultimately show ?thesis using FrameFires Some
      by (simp add: well_formed_execute)
  qed
next
  case (FactoryResolves t v e)
  assume wf: "well_formed w"
  have rm: "well_formed (w\<lparr>inflight := remove1 t (inflight w)\<rparr>)"
    using wf by (auto simp: well_formed_def list_all_iff dest: notin_set_remove1)
  show ?thesis using FactoryResolves rm wf
    by (auto simp: factory_then_def list_all_iff well_formed_def[of w] intro!: well_formed_resolve)
next
  case (FactoryRejects t v e)
  assume wf: "well_formed w"
  have rm: "well_formed (w\<lparr>inflight := remove1 t (inflight w)\<rparr>)"
    using wf by (auto simp: well_formed_def list_all_iff dest: notin_set_remove1)
  show ?thesis using FactoryRejects rm wf
    by (auto simp: factory_catch_def Let_def list_all_iff well_formed_def[of w] intro!: well_formed_resolve)
next
  case (CallRefresh e)
  assume wf: "well_formed w"
  have "well_formed (snd (resolve (p_tick w) \<lparr>interval = 0, payload = None, phase = Refresh, tick = now e\<rparr> w))"
    using wf by (intro well_formed_resolve) (auto simp: well_formed_def split: option.splits)
  then show ?thesis using CallRefresh
    by (auto simp: refresh_def split: prod.splits option.splits)
next
  case CallDispose
  assume "well_formed w"
  then show ?thesis using CallDispose
    by (auto simp: dispose_def well_formed_def Let_def list_all_iff split: option.splits)
next
  case RunMicrotask
  assume "well_formed w"
  then show ?thesis using RunMicrotask
    by (auto split: nat.splits)
qed

lemma well_formed_run: "well_formed w \<Longrightarrow> well_formed (run w evs)"
  by (induction evs arbitrary: w) (auto simp: well_formed_step)

lemma well_formed_reachable:
  "constructor opts t0 = Inr w0 \<Longrightarrow> well_formed (run w0 evs)"
  by (simp add: well_formed_constructor well_formed_run)

subsection \<open>Disposed polls\<close>

lemma dispose_fields [simp]:
  "p_isDisposed (dispose w)"
  "timers (dispose w) = timers w"
  "frames (dispose w) = frames w"
  "p_timeout (dispose w) = p_timeout w"
  "p_state (dispose w) = p_state w"
  "inflight (dispose w) = inflight w"
  "microtasks (dispose w) = microtasks w"
  by (simp_all add: dispose_def Let_def split: option.splits)

lemma dispose_tick: "\<not> p_isDisposed w \<Longrightarrow> p_tick (dispose w) = None"
  by (simp add: dispose_def Let_def split: option.splits)

lemma refresh_eq:
  "refresh e w =
     (Inr (length (delegates w)),
      snd (resolve (p_tick w) \<lparr>interval = 0, payload = None, phase = Refresh, tick = now e\<rparr> w))"
proof -
  let ?st = "\<lparr>interval = 0, payload = None, phase = Refresh, tick = now e\<rparr> :: 'a state"
  obtain r w' where rw: "resolve (p_tick w) ?st w = (r, w')"
    by (cases "resolve (p_tick w) ?st w")
  have "fst (resolve (p_tick w) ?st w) = Some (length (delegates w))"
    by simp
  then have "r = Some (length (delegates w))"
    unfolding rw by simp
  then show ?thesis
    unfolding refresh_def rw by simp
qed

lemma disposed_stays: "p_isDisposed w \<Longrightarrow> p_isDisposed (step w ev)"
  by (cases ev)
     (simp_all add: when_then_def when_catch_def execute_def factory_then_def
        factory_catch_def dispose_def refresh_eq split: option.splits nat.splits)

lemma disposed_no_tick_step:
  assumes "p_isDisposed w" and "p_tick w = None" and "\<forall>e. ev \<noteq> CallRefresh e"
  shows "p_tick (step w ev) = None"
  using assms
  by (cases ev)
     (simp_all add: when_then_def when_catch_def execute_def factory_then_def
        factory_catch_def dispose_def split: option.splits nat.splits)

lemma disposed_no_tick_run:
  assumes "p_isDisposed w" and "p_tick w = None" and "\<forall>e. CallRefresh e \<notin> set evs"
  shows "p_tick (run w evs) = None"
  using assms
proof (induction evs arbitrary: w)
  case Nil
  then show ?case by simp
next
  case (Cons ev evs)
  from Cons.prems have "\<forall>e. ev \<noteq> CallRefresh e" by auto
  with Cons.prems have "p_tick (step w ev) = None" "p_isDisposed (step w ev)"
    by (simp_all add: disposed_no_tick_step disposed_stays)
  with Cons show ?case by simp
qed

text \<open>
  Claim C10: after \<open>dispose()\<close> has run on a poll that was not disposed, and as long as
  \<open>refresh()\<close> is not called, reading \<open>tick\<close> throws a \<open>TypeError\<close>, whatever else
  happens (timers, frames, settlements, reactions): \<open>dispose\<close> sets \<open>_tick\<close> to
  \<open>null\<close>, and the getter reads \<open>this._tick.promise\<close>.
\<close>

theorem tick_getter_throws_after_dispose:
  assumes "\<not> p_isDisposed w" and "\<forall>e. CallRefresh e \<notin> set evs"
  shows "\<exists>msg. get_tick (run (dispose w) evs) = Inl (TypeError msg)"
proof -
  have "p_tick (run (dispose w) evs) = None"
    using assms by (intro disposed_no_tick_run) (simp_all add: dispose_tick)
  then show ?thesis by (simp add: get_tick_def)
qed

theorem tick_getter_throws_after_dispose_witness:
  "get_tick (step sample_poll (GateResolves visible)) = Inr 1
   \<and> (\<exists>msg. get_tick (run (dispose (step sample_poll (GateResolves visible)))
                        [TimerFires 1 visible, RunMicrotask]) = Inl (TypeError msg))"
proof -
  define w where "w = step sample_poll (GateResolves visible)"
  have nd: "\<not> p_isDisposed w" and t: "get_tick w = Inr 1"
    by (simp_all add: w_def get_tick_def poll_defs)
  have nr: "\<forall>e. CallRefresh e \<notin> set [TimerFires 1 visible, RunMicrotask :: string event]"
    by simp
  from tick_getter_throws_after_dispose [OF nd nr] t show ?thesis
    unfolding w_def by (rule_tac conjI)
qed

lemma filter_key_absent:
  "map_of xs h = None \<Longrightarrow> filter (\<lambda>(k, _). k \<noteq> h) xs = xs"
  by (induction xs) (auto split: if_splits)

text \<open>
  Claim C9, as stated: \<open>dispose()\<close> on a poll that is not disposed cancels the pending
  timer or frame request, so that no handle is armed when it returns. It fails:
  \<open>dispose\<close> calls neither \<open>clearTimeout\<close> nor \<open>cancelAnimationFrame\<close>. After the gate
  of the sample poll has resolved, timer 1 is armed, and it still is after \<open>dispose()\<close>.
\<close>

theorem dispose_keeps_handle_counterexample:
  "\<not> p_isDisposed (step sample_poll (GateResolves visible))
   \<and> timers (dispose (step sample_poll (GateResolves visible))) = [(1, 1)]
   \<and> p_timeout (dispose (step sample_poll (GateResolves visible))) = 1"
  by (simp add: poll_defs)

text \<open>
  Claim C9, amended: \<open>dispose()\<close> on a poll that is not disposed marks it disposed and
  leaves every armed timer and frame request armed, with \<open>_timeout\<close> unchanged; when such
  a handle fires later, \<open>_execute\<close> returns at its first test: the poll stays as it is, the
  fired handle apart (no factory call, no state installed, no new handle).
\<close>

theorem dispose_keeps_handle:
  assumes "\<not> p_isDisposed w"
  shows "p_isDisposed (dispose w)
       \<and> timers (dispose w) = timers w \<and> frames (dispose w) = frames w
       \<and> p_timeout (dispose w) = p_timeout w
       \<and> step (dispose w) (TimerFires h e)
           = (dispose w)\<lparr>timers := filter (\<lambda>(k, _). k \<noteq> h) (timers w)\<rparr>
       \<and> step (dispose w) (FrameFires h e)
           = (dispose w)\<lparr>frames := filter (\<lambda>(k, _). k \<noteq> h) (frames w)\<rparr>"
proof -
  have "step (dispose w) (TimerFires h e)
           = (dispose w)\<lparr>timers := filter (\<lambda>(k, _). k \<noteq> h) (timers w)\<rparr>"
    by (cases "map_of (timers w) h") (simp_all add: filter_key_absent execute_def)
  moreover have "step (dispose w) (FrameFires h e)
           = (dispose w)\<lparr>frames := filter (\<lambda>(k, _). k \<noteq> h) (frames w)\<rparr>"
    by (cases "map_of (frames w) h") (simp_all add: filter_key_absent execute_def)
  ultimately show ?thesis by simp
qed


theorem dispose_keeps_handle_witness:
  "p_isDisposed (dispose (step sample_poll (GateResolves visible)))
   \<and> timers (dispose (step sample_poll (GateResolves visible))) = [(1, 1)]
   \<and> invoked (trace (step (dispose (step sample_poll (GateResolves visible)))
                         (TimerFires 1 visible))) = []
   \<and> timers (step (dispose (step sample_poll (GateResolves visible)))
                (TimerFires 1 visible)) = []"
proof -
  define w where "w = step sample_poll (GateResolves visible)"
  have nd: "\<not> p_isDisposed w" and tm: "timers w = [(1, 1)]" and tr: "invoked (trace w) = []"
    by (simp_all add: w_def poll_defs)
  have tr': "invoked (trace (dispose w)) = []"
    using nd tr by (simp add: dispose_def Let_def split: option.splits)
  from dispose_keeps_handle [OF nd, of 1 visible]
  have "p_isDisposed (dispose w)" and "timers (dispose w) = timers w"
    and "step (dispose w) (TimerFires 1 visible)
           = (dispose w)\<lparr>timers := filter (\<lambda>(k, _). k \<noteq> 1) (timers w)\<rparr>"
    by blast+
  then show ?thesis
    unfolding w_def [symmetric] by (simp add: tm tr' del: step.simps)
qed

subsection \<open>Refresh\<close>

lemma resolve_delegates:
  assumes "t < length (delegates w)" and "delegates w ! t = Pending"
  shows "delegates (snd (resolve (Some t) st w)) = (delegates w)[t := Fulfilled] @ [Pending]"
    and "microtasks (snd (resolve (Some t) st w)) = Suc (microtasks w)"
  using assms
  by (simp_all add: resolve_def then_emit_resolve_def Let_def nth_append list_update_append1)

lemma settle_superseded:
  assumes "p_tick w \<noteq> Some t"
  shows "step w (FactoryResolves t v e) = w\<lparr>inflight := remove1 t (inflight w)\<rparr>"
    and "step w (FactoryRejects t v e) = w\<lparr>inflight := remove1 t (inflight w)\<rparr>"
  using assms
  by (auto simp: factory_then_def factory_catch_def remove1_idem)

text \<open>
  Claim C7: on a poll that is not disposed (built by the constructor and brought by any
  events to its present state), \<open>refresh()\<close> installs the state with phase \<open>refresh\<close>,
  interval 0 and payload \<open>null\<close>, resolves the promise that was outstanding (it was
  pending), and returns the new outstanding promise, which is another one and pending;
  every factory call in flight is superseded: its settlement, success or failure, changes
  nothing but the list of calls in flight.
\<close>

theorem refresh_installs:
  assumes "constructor opts t0 = Inr w0" and "w = run w0 evs" and "\<not> p_isDisposed w"
  shows "\<exists>old new w'.
           get_tick w = Inr old \<and> delegates w ! old = Pending
         \<and> refresh e w = (Inr new, w')
         \<and> p_state w' = \<lparr>interval = 0, payload = None, phase = Refresh, tick = now e\<rparr>
         \<and> delegates w' ! old = Fulfilled
         \<and> get_tick w' = Inr new \<and> new \<noteq> old \<and> delegates w' ! new = Pending
         \<and> (\<forall>t \<in> set (inflight w). \<forall>v e'.
               step w' (FactoryResolves t v e') = w'\<lparr>inflight := remove1 t (inflight w')\<rparr>
             \<and> step w' (FactoryRejects t v e') = w'\<lparr>inflight := remove1 t (inflight w')\<rparr>)"
proof -
  let ?st = "\<lparr>interval = 0, payload = None, phase = Refresh, tick = now e\<rparr> :: 'a state"
  have wf: "well_formed w"
    using assms(1,2) by (simp add: well_formed_reachable)
  with assms(3) obtain old where old: "p_tick w = Some old" "old < length (delegates w)"
      "delegates w ! old = Pending"
    unfolding well_formed_def by (cases "p_tick w") auto
  define w' where "w' = snd (resolve (Some old) ?st w)"
  have r: "refresh e w = (Inr (length (delegates w)), w')"
    by (simp add: refresh_eq old w'_def)
  have ds: "delegates w' = (delegates w)[old := Fulfilled] @ [Pending]"
    unfolding w'_def using old by (simp add: resolve_delegates)
  have tk: "p_tick w' = Some (length (delegates w))"
    unfolding w'_def by simp
  have inf: "inflight w' = inflight w"
    unfolding w'_def by simp
  have stale: "step w' (FactoryResolves t v e') = w'\<lparr>inflight := remove1 t (inflight w')\<rparr>
             \<and> step w' (FactoryRejects t v e') = w'\<lparr>inflight := remove1 t (inflight w')\<rparr>"
    if "t \<in> set (inflight w)" for t v e'
  proof -
    from that wf have "t < length (delegates w)"
      by (simp add: well_formed_def list_all_iff)
    then have "p_tick w' \<noteq> Some t"
      by (simp add: tk)
    then show ?thesis
      by (intro conjI settle_superseded)
  qed
  have "get_tick w = Inr old" "get_tick w' = Inr (length (delegates w))"
    by (simp_all add: get_tick_def old tk)
  moreover have "p_state w' = ?st"
    unfolding w'_def by simp
  moreover have "delegates w' ! old = Fulfilled" "delegates w' ! length (delegates w) = Pending"
    using old by (simp_all add: ds nth_append)
  moreover have "length (delegates w) \<noteq> old"
    using old by simp
  ultimately show ?thesis
    using r old(3) stale by blast
qed

theorem refresh_installs_witness:
  "\<exists>w'. refresh visible (run sample_poll [GateResolves visible, TimerFires 1 visible])
            = (Inr 2, w')
      \<and> get_tick (run sample_poll [GateResolves visible, TimerFires 1 visible]) = Inr 1
      \<and> p_state w' = \<lparr>interval = 0, payload = None, phase = Refresh, tick = 0\<rparr>
      \<and> delegates w' ! 1 = Fulfilled \<and> delegates w' ! 2 = Pending
      \<and> step w' (FactoryResolves 1 ''42'' visible) = w'\<lparr>inflight := remove1 1 (inflight w')\<rparr>"
proof -
  define w where "w = run sample_poll [GateResolves visible, TimerFires 1 visible]"
  have nd: "\<not> p_isDisposed w" and t: "get_tick w = Inr 1" and inf: "1 \<in> set (inflight w)"
    and len: "length (delegates w) = 2"
    by (simp_all add: w_def get_tick_def poll_defs)
  from refresh_installs [OF sample_poll_constructed w_def nd, of visible]
  obtain old new w' where old: "get_tick w = Inr old"
    and r: "refresh visible w = (Inr new, w')"
    and st: "p_state w' = \<lparr>interval = 0, payload = None, phase = Refresh, tick = now visible\<rparr>"
    and ds: "delegates w' ! old = Fulfilled" "delegates w' ! new = Pending"
    and stale: "\<forall>t \<in> set (inflight w). \<forall>v e'.
               step w' (FactoryResolves t v e') = w'\<lparr>inflight := remove1 t (inflight w')\<rparr>
             \<and> step w' (FactoryRejects t v e') = w'\<lparr>inflight := remove1 t (inflight w')\<rparr>"
    by blast
  have "old = 1" using old t by simp
  moreover have "new = 2" using r len by (simp add: refresh_eq)
  moreover have "step w' (FactoryResolves 1 ''42'' visible) = w'\<lparr>inflight := remove1 1 (inflight w')\<rparr>"
    using stale inf by blast
  moreover have "now visible = 0" by (simp add: visible_def)
  ultimately show ?thesis
    unfolding w_def [symmetric] using r t st ds by auto
qed

subsection \<open>Superseded calls\<close>

lemma stale_step:
  assumes "t < length (delegates w)" and "p_tick w \<noteq> Some t"
  shows "t < length (delegates (step w ev)) \<and> p_tick (step w ev) \<noteq> Some t"
  using assms
  by (cases ev)
     (auto simp: when_then_def when_catch_def execute_def factory_then_def factory_catch_def
        dispose_def refresh_eq Let_def split: option.splits nat.splits)

lemma stale_run:
  assumes "t < length (delegates w)" and "p_tick w \<noteq> Some t"
  shows "p_tick (run w evs) \<noteq> Some t"
  using assms
proof (induction evs arbitrary: w)
  case Nil
  then show ?case by simp
next
  case (Cons ev evs)
  from stale_step [OF Cons.prems, of ev] Cons.IH show ?case by simp
qed

text \<open>
  Claim C5: a factory call in flight whose delegate is no longer the outstanding one
  (replaced by \<open>refresh\<close>, by \<open>dispose\<close> or by any other installation) never changes the
  poll when it settles, however many events happen in between: success and failure alike
  leave the state, the outstanding promise, the handles and the observations as they are.
\<close>

theorem superseded_settlement_ignored:
  assumes "constructor opts t0 = Inr w0" and "w = run w0 evs"
    and "t \<in> set (inflight w)" and "p_tick w \<noteq> Some t"
  shows "step (run w evs') (FactoryResolves t v e)
           = (run w evs')\<lparr>inflight := remove1 t (inflight (run w evs'))\<rparr>
       \<and> step (run w evs') (FactoryRejects t v e)
           = (run w evs')\<lparr>inflight := remove1 t (inflight (run w evs'))\<rparr>"
proof -
  have "well_formed w"
    using assms(1,2) by (simp add: well_formed_reachable)
  with assms(3) have "t < length (delegates w)"
    by (simp add: well_formed_def list_all_iff)
  then have "p_tick (run w evs') \<noteq> Some t"
    using assms(4) by (rule stale_run)
  then show ?thesis
    by (intro conjI settle_superseded)
qed


theorem superseded_settlement_ignored_witness:
  "p_tick (run sample_poll [GateResolves visible, TimerFires 1 visible, CallRefresh visible])
     = Some 2
   \<and> inflight (run sample_poll [GateResolves visible, TimerFires 1 visible, CallRefresh visible])
     = [1]
   \<and> step (run (run sample_poll [GateResolves visible, TimerFires 1 visible, CallRefresh visible])
                [FrameFires 1 visible])
          (FactoryResolves 1 ''42'' visible)
     = (run (run sample_poll [GateResolves visible, TimerFires 1 visible, CallRefresh visible])
            [FrameFires 1 visible])\<lparr>inflight := [2]\<rparr>"
proof -
  define w where "w = run sample_poll [GateResolves visible, TimerFires 1 visible, CallRefresh visible]"
  have inf: "1 \<in> set (inflight w)" and tk: "p_tick w \<noteq> Some 1"
    and a: "p_tick w = Some 2" "inflight w = [1]"
    by (simp_all add: w_def poll_defs)
  have b: "remove1 1 (inflight (run w [FrameFires 1 visible])) = [2]"
    by (simp add: w_def poll_defs)
  from superseded_settlement_ignored [OF sample_poll_constructed w_def inf tk,
         of "[FrameFires 1 visible]" "''42''" visible]
  have "step (run w [FrameFires 1 visible]) (FactoryResolves 1 ''42'' visible)
          = (run w [FrameFires 1 visible])
              \<lparr>inflight := remove1 1 (inflight (run w [FrameFires 1 visible]))\<rparr>"
    by (rule conjunct1)
  then show ?thesis
    unfolding w_def [symmetric] b using a by (simp del: step.simps run.simps)
qed

subsection \<open>After disposal\<close>

lemma disposed_never_invokes_step:
  "p_isDisposed w \<Longrightarrow> invoked (trace (step w ev)) = invoked (trace w)"
  by (cases ev)
     (simp_all add: when_then_def when_catch_def execute_def factory_then_def
        factory_catch_def dispose_def refresh_eq split: option.splits nat.splits)

lemma disposed_never_invokes:
  "p_isDisposed w \<Longrightarrow> invoked (trace (run w evs)) = invoked (trace w)"
  by (induction evs arbitrary: w) (simp_all add: disposed_never_invokes_step disposed_stays)

lemma disposed_inert_step:
  assumes "p_isDisposed w" and "\<forall>e. ev \<noteq> CallRefresh e"
  shows "p_state (step w ev) = p_state w"
    and "installed (trace (step w ev)) = installed (trace w)"
    and "p_tick (step w ev) = p_tick w"
  using assms
  by (cases ev;
      simp add: when_then_def when_catch_def execute_def factory_then_def
        factory_catch_def dispose_def split: option.splits nat.splits)+

lemma disposed_inert:
  assumes "p_isDisposed w" and "\<forall>e. CallRefresh e \<notin> set evs"
  shows "p_state (run w evs) = p_state w \<and> installed (trace (run w evs)) = installed (trace w)"
  using assms
proof (induction evs arbitrary: w)
  case Nil
  then show ?case by simp
next
  case (Cons ev evs)
  from Cons.prems have "\<forall>e. ev \<noteq> CallRefresh e" by auto
  with Cons.prems(1) have "p_state (step w ev) = p_state w"
      "installed (trace (step w ev)) = installed (trace w)" "p_isDisposed (step w ev)"
    by (simp_all add: disposed_inert_step disposed_stays)
  with Cons show ?case by simp
qed

text \<open>
  Claim C1 says that after \<open>disposed\<close> no phase transition, no factory call and no
  emission of \<open>ticked\<close> occurs, whatever follows, \<open>refresh\<close> calls included. The two
  lemmas above are the part the code keeps: no factory call ever begins on a disposed poll,
  and without a call of \<open>refresh\<close> no state is installed. But \<open>refresh()\<close> is the one entry
  point that does not test \<open>_isDisposed\<close>: on the disposed sample poll it installs a
  \<open>refresh\<close> state and arms a frame request, and a second call resolves the delegate the
  first one created, so that \<open>this._ticked.emit()\<close> is called after \<open>disposed\<close>.
\<close>

theorem refresh_after_dispose_installs:
  "p_isDisposed (run sample_poll
                   [GateResolves visible, RunMicrotask, CallDispose, CallRefresh visible,
                    CallRefresh visible, RunMicrotask])
   \<and> trace (run sample_poll
               [GateResolves visible, RunMicrotask, CallDispose, CallRefresh visible,
                CallRefresh visible, RunMicrotask])
       = [Installed \<lparr>interval = 1000, payload = None, phase = WhenResolved, tick = 0\<rparr>,
          Ticked, Disposed,
          Installed \<lparr>interval = 0, payload = None, phase = Refresh, tick = 0\<rparr>,
          Installed \<lparr>interval = 0, payload = None, phase = Refresh, tick = 0\<rparr>,
          Ticked]
   \<and> frames (run sample_poll
                [GateResolves visible, RunMicrotask, CallDispose, CallRefresh visible,
                 CallRefresh visible, RunMicrotask]) = [(1, 2), (2, 3)]"
  by (simp add: poll_defs)

subsection \<open>Bounds on the installed intervals\<close>

lemma config_step [simp]:
  "p_interval (step w ev) = p_interval w"
  "p_max (step w ev) = p_max w"
  "p_min (step w ev) = p_min w"
  "p_variance (step w ev) = p_variance w"
  "p_name (step w ev) = p_name w"
  by (cases ev;
      simp add: when_then_def when_catch_def execute_def factory_then_def
        factory_catch_def dispose_def refresh_eq Let_def split: option.splits nat.splits)+

lemma config_run [simp]:
  "p_interval (run w evs) = p_interval w"
  "p_max (run w evs) = p_max w"
  "p_min (run w evs) = p_min w"
  "p_variance (run w evs) = p_variance w"
  by (induction evs arbitrary: w) simp_all

lemma tick_in_bounds_cong:
  "p_min w' = p_min w \<Longrightarrow> p_max w' = p_max w \<Longrightarrow> tick_in_bounds w' = tick_in_bounds w"
  by (simp add: tick_in_bounds_def fun_eq_iff)

lemma bounded_step:
  assumes var: "p_variance w \<noteq> 0"
    and cfg: "p_min w \<le> p_interval w" "p_interval w \<le> p_max w"
    and old: "list_all (tick_in_bounds w) (installed (trace w))"
  shows "list_all (tick_in_bounds w) (installed (trace (step w ev)))"
proof -
  have mm: "p_min w \<le> p_max w" using cfg by simp
  note j = jitter_clamped [OF var mm]
  show ?thesis
    using old cfg j
    by (cases ev)
       (auto simp: when_then_def when_catch_def execute_def factory_then_def
          factory_catch_def dispose_def refresh_eq Let_def tick_in_bounds_def
          split: option.splits nat.splits)
qed

lemma installed_intervals_bounded:
  assumes "p_variance w \<noteq> 0" and "p_min w \<le> p_interval w" and "p_interval w \<le> p_max w"
    and "list_all (tick_in_bounds w) (installed (trace w))"
  shows "list_all (tick_in_bounds w) (installed (trace (run w evs)))"
  using assms
proof (induction evs arbitrary: w)
  case Nil
  then show ?case by simp
next
  case (Cons ev evs)
  have eq: "tick_in_bounds (step w ev) = tick_in_bounds w"
    by (rule tick_in_bounds_cong) simp_all
  from Cons.prems have "list_all (tick_in_bounds w) (installed (trace (step w ev)))"
    by (rule bounded_step)
  with Cons.prems Cons.IH [of "step w ev"] show ?case
    by (simp add: eq)
qed

subsection \<open>A failure after a refresh, without jitter\<close>

text \<open>
  Claim C4 says that with a valid configuration every installed state has its interval
  between the minimum and the maximum, the \<open>refresh\<close> states (interval 0) apart. With a
  variance of zero it fails on the sample configuration: \<open>refresh()\<close> installs the interval
  0, the rejection handler doubles it to \<open>min(0 * 2, max) = 0\<close>, and \<open>jitter\<close> with
  factor 0 returns \<open>round(0) = 0\<close> without the clamp. The state installed has phase
  \<open>rejected\<close> and interval 0, below the minimum 100, and every further failure installs
  0 again.
\<close>

theorem refresh_then_failure_interval_zero:
  "p_min (run sample_poll
            [GateResolves visible, CallRefresh visible, FrameFires 1 visible,
             FactoryRejects 2 ''x'' visible]) = 100
   \<and> p_state (run sample_poll
                 [GateResolves visible, CallRefresh visible, FrameFires 1 visible,
                  FactoryRejects 2 ''x'' visible])
       = \<lparr>interval = 0, payload = Some ''x'', phase = Rejected, tick = 0\<rparr>
   \<and> map interval (installed (trace (run sample_poll
                 [GateResolves visible, CallRefresh visible, FrameFires 1 visible,
                  FactoryRejects 2 ''x'' visible, FrameFires 2 visible,
                  FactoryRejects 3 ''x'' visible])))
       = [1000, 0, 0, 0]
   \<and> map phase (installed (trace (run sample_poll
                 [GateResolves visible, CallRefresh visible, FrameFires 1 visible,
                  FactoryRejects 2 ''x'' visible, FrameFires 2 visible,
                  FactoryRejects 3 ''x'' visible])))
       = [WhenResolved, Refresh, Rejected, Rejected]"
  by (simp add: poll_defs)

end
